theory Spec2Isabelle
  imports Main "HOL-Library.Word"
begin

section \<open>Data model of the native bridge (src/disassembler.cpp)\<close>

text \<open>
  The four entry points receive a Java \<open>byte[]\<close>. Its elements are \<open>jbyte\<close>, a signed
  8-bit integer; a buffer is a list of 8-bit words holding the bit patterns. \<open>sint\<close> reads
  an element the way an expression of type \<open>jbyte\<close> does, and the cast
  \<open>(unsigned char)\<close> keeps the bit pattern, whose value is \<open>unat\<close> (the order on words
  is the unsigned one). \<open>jint\<close> is a signed 32-bit integer and \<open>jlong\<close> a signed 64-bit
  one. \<open>GetArrayLength\<close> yields the number of elements, which for a Java array is below
  \<open>2 ^ 31\<close>.
\<close>

type_synonym jbyte = "8 word"
type_synonym jint = "32 word"
type_synonym jlong = "64 word"

text \<open>The conversion of a \<open>jbyte\<close> to a \<open>jint\<close> is the sign extension.\<close>

definition jint_of_jbyte :: "jbyte \<Rightarrow> jint" where
  "jint_of_jbyte b = scast b"

section \<open>parseELFHeader\<close>

text \<open>
  The validation of lines 63 to 67: the disjunction is evaluated from left to right, so the
  elements are only read when the length test has passed. The operands \<open>bytes[k]\<close> are
  promoted to \<open>int\<close>, hence read as signed values; \<open>'E'\<close>, \<open>'L'\<close> and \<open>'F'\<close> are the
  character codes 69, 76 and 70.
\<close>

definition elf_magic_mismatch :: "jbyte list \<Rightarrow> bool" where
  "elf_magic_mismatch bytes \<longleftrightarrow>
     length bytes < 20 \<or> sint (bytes ! 0) \<noteq> 0x7F \<or> sint (bytes ! 1) \<noteq> 69 \<or>
     sint (bytes ! 2) \<noteq> 76 \<or> sint (bytes ! 3) \<noteq> 70"

text \<open>
  The result is \<open>None\<close> for the \<open>nullptr\<close> of line 66 and otherwise the five-element
  \<open>jint\<close> array filled from \<open>result_data\<close> (lines 70 to 79).
\<close>

definition parseELFHeader :: "jbyte list \<Rightarrow> jint list option" where
  "parseELFHeader bytes =
     (if elf_magic_mismatch bytes then None
      else Some [jint_of_jbyte (bytes ! 4), jint_of_jbyte (bytes ! 5),
                 jint_of_jbyte (bytes ! 6), jint_of_jbyte (bytes ! 7),
                 jint_of_jbyte (bytes ! 8)])"

section \<open>extractStrings\<close>

text \<open>
  The loop of lines 108 to 121 keeps the vector \<open>strings\<close> and the accumulator
  \<open>current\<close>. The characters of a \<open>std::string\<close> are kept as bytes.
\<close>

record scan_state =
  strings :: "jbyte list list"
  current :: "jbyte list"

text \<open>
  In \<open>current.length() >= minLength\<close> the left operand has the unsigned type \<open>size_t\<close>,
  so the \<open>jint\<close> on the right is converted to \<open>size_t\<close>, that is reduced modulo
  \<open>2 ^ w\<close> where \<open>w\<close> is the width of \<open>size_t\<close> on the target (32 or 64). The width is
  a parameter of the model.
\<close>

definition size_t_of_jint :: "nat \<Rightarrow> jint \<Rightarrow> nat" where
  "size_t_of_jint w n = nat (sint n mod 2 ^ w)"

text \<open>One iteration of the loop body, for the byte \<open>bytes[i]\<close>.\<close>

definition scan_step :: "nat \<Rightarrow> jint \<Rightarrow> jbyte \<Rightarrow> scan_state \<Rightarrow> scan_state" where
  "scan_step w minLength c st =
     (if 32 \<le> c \<and> c \<le> 126 then st\<lparr>current := current st @ [c]\<rparr>
      else if c = 0 \<and> size_t_of_jint w minLength \<le> length (current st)
        then st\<lparr>strings := strings st @ [current st], current := []\<rparr>
      else st\<lparr>current := []\<rparr>)"

text \<open>The loop visits the elements in order, from index 0 to the last one.\<close>

primrec scan_loop :: "nat \<Rightarrow> jint \<Rightarrow> jbyte list \<Rightarrow> scan_state \<Rightarrow> scan_state" where
  "scan_loop w minLength [] st = st"
| "scan_loop w minLength (c # cs) st = scan_loop w minLength cs (scan_step w minLength c st)"

text \<open>
  The function returns the collected strings in the order of discovery. Every collected
  byte is an ASCII code between 32 and 126, so \<open>NewStringUTF\<close> turns each
  \<open>std::string\<close> into the Java string of the same characters; the result is kept as the
  list of the byte sequences.
\<close>

definition extractStrings :: "nat \<Rightarrow> jbyte list \<Rightarrow> jint \<Rightarrow> jbyte list list" where
  "extractStrings w bytes minLength =
     strings (scan_loop w minLength bytes \<lparr>strings = [], current = []\<rparr>)"

section \<open>disassembleARM64 and calculateHash\<close>

text \<open>
  \<open>disassembleARM64\<close> (lines 22 to 42) reads the array and its length and returns a new
  \<open>String\<close> array of length 0, whatever the arguments are.
\<close>

definition disassembleARM64 :: "jbyte list \<Rightarrow> jlong \<Rightarrow> string list" where
  "disassembleARM64 code address = []"

text \<open>\<open>calculateHash\<close> (lines 146 to 155) returns the string literal of line 154.\<close>

definition calculateHash :: "jbyte list \<Rightarrow> string" where
  "calculateHash bytes =
     ''0000000000000000000000000000000000000000000000000000000000000000''"

section \<open>Auxiliary predicates for the scan\<close>

text \<open>The printable ASCII codes, as tested in line 112.\<close>

definition printable :: "jbyte \<Rightarrow> bool" where
  "printable c \<longleftrightarrow> 32 \<le> c \<and> c \<le> 126"

text \<open>
  A string \<open>s\<close> that the scan with threshold \<open>m\<close> may have emitted from the part \<open>P\<close>
  of the buffer read so far: it reaches the threshold, is printable, and stands in \<open>P\<close>
  directly before a 0 byte.
\<close>

definition emitted_in :: "nat \<Rightarrow> jint \<Rightarrow> jbyte list \<Rightarrow> jbyte list \<Rightarrow> bool" where
  "emitted_in w m P s \<longleftrightarrow>
     size_t_of_jint w m \<le> length s \<and> (\<forall>c\<in>set s. printable c) \<and>
     (\<exists>pre post. P = pre @ s @ 0 # post)"

text \<open>
  The loop invariant after the part \<open>P\<close> has been read: every collected string was
  emitted from \<open>P\<close>, and the accumulator is a printable run at the end of \<open>P\<close>.
\<close>

definition scan_inv :: "nat \<Rightarrow> jint \<Rightarrow> jbyte list \<Rightarrow> scan_state \<Rightarrow> bool" where
  "scan_inv w m P st \<longleftrightarrow>
     (\<forall>s\<in>set (strings st). emitted_in w m P s) \<and>
     (\<forall>c\<in>set (current st). printable c) \<and>
     (\<exists>pre. P = pre @ current st)"

section \<open>Signed bytes\<close>

lemma sint_jbyte_7F: "sint (b::jbyte) = 0x7F \<longleftrightarrow> b = 0x7F"
  using word_eq_iff_signed [where 'a = int, of b "0x7F"] by simp

lemma sint_jbyte_E: "sint (b::jbyte) = 69 \<longleftrightarrow> b = 0x45"
  using word_eq_iff_signed [where 'a = int, of b "0x45"] by simp

lemma sint_jbyte_L: "sint (b::jbyte) = 76 \<longleftrightarrow> b = 0x4C"
  using word_eq_iff_signed [where 'a = int, of b "0x4C"] by simp

lemma sint_jbyte_F: "sint (b::jbyte) = 70 \<longleftrightarrow> b = 0x46"
  using word_eq_iff_signed [where 'a = int, of b "0x46"] by simp

lemma sint_jint_of_jbyte: "sint (jint_of_jbyte b) = sint b"
  unfolding jint_of_jbyte_def
  by (rule sint_up_scast) (simp add: is_up)

lemma sint_jbyte_range: "- 128 \<le> sint (b::jbyte) \<and> sint b \<le> 127"
  using sint_ge [of b] sint_lt [of b] by simp

lemma bit7_int: "0 \<le> k \<Longrightarrow> k < 256 \<Longrightarrow> bit (k::int) 7 \<longleftrightarrow> 128 \<le> k"
  by (simp add: bit_iff_odd) presburger

lemma sint_jbyte_unat:
  "sint (b::jbyte) = (if 128 \<le> unat b then int (unat b) - 256 else int (unat b))"
proof -
  have r: "uint b < 256" using uint_bounded [of b] by simp
  have p: "0 \<le> uint b" by simp
  have bit7: "bit (uint b) 7 \<longleftrightarrow> 128 \<le> uint b"
    using p r by (rule bit7_int)
  have "sint b = take_bit 8 (uint b) - 256 * of_bool (bit (uint b) 7)"
    by (simp add: sint_uint signed_take_bit_eq_take_bit_minus)
  also have "take_bit 8 (uint b) = uint b"
    using r p by (simp add: take_bit_int_eq_self)
  finally show ?thesis
    using bit7 by (simp add: unat_eq_nat_uint le_nat_iff del: nat_uint_eq)
qed

section \<open>The ELF magic test\<close>

lemma take4_nth:
  assumes "4 \<le> length xs"
  shows "take 4 xs = [a, b, c, d] \<longleftrightarrow>
         xs ! 0 = a \<and> xs ! 1 = b \<and> xs ! 2 = c \<and> xs ! 3 = d"
proof -
  obtain x0 x1 x2 x3 r where xs: "xs = x0 # x1 # x2 # x3 # r"
    using assms by (auto simp: numeral_eq_Suc Suc_le_length_iff)
  show ?thesis by (simp add: xs numeral_eq_Suc)
qed

lemma elf_magic_mismatch_iff:
  "elf_magic_mismatch bytes \<longleftrightarrow>
   \<not> (20 \<le> length bytes \<and> take 4 bytes = [0x7F, 0x45, 0x4C, 0x46])"
proof (cases "20 \<le> length bytes")
  case True
  then have "4 \<le> length bytes" by simp
  from take4_nth [OF this] True show ?thesis
    by (simp add: elf_magic_mismatch_def sint_jbyte_7F sint_jbyte_E sint_jbyte_L sint_jbyte_F)
next
  case False
  then show ?thesis by (simp add: elf_magic_mismatch_def)
qed

lemma parseELFHeader_Some:
  assumes "20 \<le> length B" and "take 4 B = [0x7F, 0x45, 0x4C, 0x46]"
  shows "parseELFHeader B =
         Some [jint_of_jbyte (B ! 4), jint_of_jbyte (B ! 5), jint_of_jbyte (B ! 6),
               jint_of_jbyte (B ! 7), jint_of_jbyte (B ! 8)]"
  using assms by (simp add: parseELFHeader_def elf_magic_mismatch_iff)

lemma parseELFHeader_None:
  assumes "\<not> (20 \<le> length B \<and> take 4 B = [0x7F, 0x45, 0x4C, 0x46])"
  shows "parseELFHeader B = None"
  using assms by (simp add: parseELFHeader_def elf_magic_mismatch_iff)

section \<open>The scan loop\<close>

lemma scan_loop_append:
  "scan_loop w m (xs @ ys) st = scan_loop w m ys (scan_loop w m xs st)"
  by (induction xs arbitrary: st) simp_all

lemma scan_loop_snoc:
  "scan_loop w m (xs @ [c]) st = scan_step w m c (scan_loop w m xs st)"
  by (simp add: scan_loop_append)

lemma scan_loop_printable:
  "\<forall>c\<in>set R. printable c \<Longrightarrow>
   scan_loop w m R st = st\<lparr>current := current st @ R\<rparr>"
proof (induction R arbitrary: st)
  case Nil
  show ?case by simp
next
  case (Cons c R)
  from Cons.prems have c: "32 \<le> c \<and> c \<le> 126" and R: "\<forall>c\<in>set R. printable c"
    by (simp_all add: printable_def)
  have "scan_step w m c st = st\<lparr>current := current st @ [c]\<rparr>"
    using c by (simp add: scan_step_def)
  then show ?case using Cons.IH [OF R] by simp
qed

lemma emitted_in_snoc: "emitted_in w m P s \<Longrightarrow> emitted_in w m (P @ [c]) s"
  unfolding emitted_in_def
  by (metis append.assoc append_Cons)

lemma scan_inv_step:
  assumes "scan_inv w m P st"
  shows "scan_inv w m (P @ [c]) (scan_step w m c st)"
proof -
  from assms obtain pre where
    S: "\<forall>s\<in>set (strings st). emitted_in w m P s" and
    C: "\<forall>c\<in>set (current st). printable c" and
    P: "P = pre @ current st"
    by (auto simp: scan_inv_def)
  from S have S': "\<forall>s\<in>set (strings st). emitted_in w m (P @ [c]) s"
    by (blast intro: emitted_in_snoc)
  show ?thesis
  proof (cases "32 \<le> c \<and> c \<le> 126")
    case True
    then have "scan_step w m c st = st\<lparr>current := current st @ [c]\<rparr>"
      by (simp add: scan_step_def)
    moreover have "P @ [c] = pre @ (current st @ [c])" using P by simp
    ultimately show ?thesis
      using S' C True unfolding scan_inv_def by (auto simp: printable_def)
  next
    case False
    show ?thesis
    proof (cases "c = 0 \<and> size_t_of_jint w m \<le> length (current st)")
      case emit: True
      then have st': "scan_step w m c st = st\<lparr>strings := strings st @ [current st], current := []\<rparr>"
        using False by (simp add: scan_step_def)
      have "P @ [c] = pre @ current st @ 0 # []" using P emit by simp
      then have "emitted_in w m (P @ [c]) (current st)"
        using emit C unfolding emitted_in_def by blast
      then show ?thesis using S' unfolding scan_inv_def st' by simp
    next
      case drop: False
      then have "scan_step w m c st = st\<lparr>current := []\<rparr>"
        using False by (auto simp add: scan_step_def)
      then show ?thesis using S' unfolding scan_inv_def by simp
    qed
  qed
qed

lemma scan_inv_loop:
  "scan_inv w m B (scan_loop w m B \<lparr>strings = [], current = []\<rparr>)"
proof (induction B rule: rev_induct)
  case Nil
  show ?case by (simp add: scan_inv_def)
next
  case (snoc c B)
  then show ?case by (simp add: scan_loop_snoc scan_inv_step)
qed

lemma extractStrings_emitted:
  "s \<in> set (extractStrings w B m) \<Longrightarrow> emitted_in w m B s"
  using scan_inv_loop [of w m B] by (simp add: scan_inv_def extractStrings_def)

lemma size_t_of_jint_nonneg:
  assumes "32 \<le> w" "0 \<le> sint m"
  shows "int (size_t_of_jint w m) = sint m"
proof -
  have "sint m < 2 ^ 31" using sint_lt [of m] by simp
  also have "(2::int) ^ 31 < 2 ^ 32" by simp
  also have "(2::int) ^ 32 \<le> 2 ^ w" using assms(1) by (rule power_increasing) simp
  finally have "sint m mod 2 ^ w = sint m" using assms(2) by simp
  then show ?thesis using assms(2) by (simp add: size_t_of_jint_def)
qed

lemma size_t_of_jint_neg:
  assumes "32 \<le> w" "sint m < 0"
  shows "2 ^ 31 \<le> size_t_of_jint w m"
proof -
  have lo: "- (2 ^ 31) \<le> sint m" using sint_ge [of m] by simp
  have w: "(2::int) ^ 32 \<le> 2 ^ w" using assms(1) by (rule power_increasing) simp
  have "sint m mod 2 ^ w = (sint m + 2 ^ w) mod 2 ^ w" by simp
  also have "\<dots> = sint m + 2 ^ w"
    using lo w assms(2) by (intro mod_pos_pos_trivial) simp_all
  finally have eq: "size_t_of_jint w m = nat (sint m + 2 ^ w)"
    by (simp only: size_t_of_jint_def)
  have "(2::int) ^ 31 \<le> sint m + 2 ^ w" using lo w by simp
  then have "nat (2 ^ 31) \<le> nat (sint m + 2 ^ w)" by (rule nat_mono)
  then show ?thesis by (simp add: eq)
qed

lemma emitted_in_index:
  assumes "emitted_in w m B s"
  shows "\<exists>i. i + length s < length B \<and> take (length s) (drop i B) = s \<and> B ! (i + length s) = 0"
proof -
  from assms obtain pre post where B: "B = pre @ s @ 0 # post"
    by (auto simp: emitted_in_def)
  have "length pre + length s < length B" by (simp add: B)
  moreover have "take (length s) (drop (length pre) B) = s" by (simp add: B)
  moreover have "B ! (length pre + length s) = 0"
    by (simp add: B nth_append)
  ultimately show ?thesis by blast
qed

lemma emitted_in_length: "emitted_in w m B s \<Longrightarrow> length s < length B"
  by (auto simp: emitted_in_def)

lemma emitted_in_threshold:
  assumes "32 \<le> w" "emitted_in w m B s"
  shows "sint m \<le> int (length s)"
proof (cases "0 \<le> sint m")
  case True
  from assms(2) have "int (size_t_of_jint w m) \<le> int (length s)"
    by (simp add: emitted_in_def)
  then show ?thesis using size_t_of_jint_nonneg [OF assms(1) True] by simp
next
  case False
  then show ?thesis by simp
qed

lemma emitted_in_bytes:
  assumes "emitted_in w m B s"
  shows "\<forall>c\<in>set s. 32 \<le> unat c \<and> unat c \<le> 126"
  using assms by (simp add: emitted_in_def printable_def word_le_nat_alt)

section \<open>Claims about parseELFHeader\<close>

text \<open>
  Claim C1. For every buffer \<open>B\<close>, \<open>parseELFHeader\<close> succeeds (returns the array of five
  integers) if and only if \<open>B\<close> has at least 20 bytes and its first four bytes are
  0x7F, \<open>E\<close>, \<open>L\<close>, \<open>F\<close>; in every other case the result is the null reference, which
  carries no partial result.
\<close>

theorem parseELFHeader_succeeds_iff:
  "((\<exists>r. parseELFHeader B = Some r \<and> length r = 5) \<longleftrightarrow>
      20 \<le> length B \<and> take 4 B = [0x7F, 0x45, 0x4C, 0x46]) \<and>
   (parseELFHeader B = None \<longleftrightarrow>
      length B < 20 \<or> take 4 B \<noteq> [0x7F, 0x45, 0x4C, 0x46])"
proof (cases "20 \<le> length B \<and> take 4 B = [0x7F, 0x45, 0x4C, 0x46]")
  case True
  then show ?thesis by (simp add: parseELFHeader_Some)
next
  case False
  then have "parseELFHeader B = None" by (rule parseELFHeader_None)
  then show ?thesis using False by auto
qed

theorem parseELFHeader_succeeds_iff_witness:
  "(\<exists>r. parseELFHeader [0x7F, 0x45, 0x4C, 0x46, 2, 1, 1, 0, 0, 0, 0, 0, 0, 0, 0, 0, 0, 0, 0, 0]
          = Some r \<and> length r = 5) \<and>
   parseELFHeader [0x7F, 0x45, 0x4C, 0x46, 2, 1, 1, 0, 0, 0, 0, 0, 0, 0, 0, 0, 0, 0, 0] = None \<and>
   parseELFHeader [0x7F, 0x45, 0x4D, 0x46, 2, 1, 1, 0, 0, 0, 0, 0, 0, 0, 0, 0, 0, 0, 0, 0] = None"
  using parseELFHeader_succeeds_iff
      [of "[0x7F, 0x45, 0x4C, 0x46, 2, 1, 1, 0, 0, 0, 0, 0, 0, 0, 0, 0, 0, 0, 0, 0]"]
    parseELFHeader_succeeds_iff
      [of "[0x7F, 0x45, 0x4C, 0x46, 2, 1, 1, 0, 0, 0, 0, 0, 0, 0, 0, 0, 0, 0, 0]"]
    parseELFHeader_succeeds_iff
      [of "[0x7F, 0x45, 0x4D, 0x46, 2, 1, 1, 0, 0, 0, 0, 0, 0, 0, 0, 0, 0, 0, 0, 0]"]
  by simp

text \<open>
  Claim C6. For every buffer \<open>B\<close> of at least 20 bytes that starts with the magic number,
  \<open>parseELFHeader\<close> returns five integers whose values are the bytes at the offsets 4 to 8
  in this order (file class, endianness, header version, OS ABI, ABI version); a buffer that
  starts with 0x7F, \<open>E\<close>, \<open>L\<close>, \<open>F\<close>, 2, 1, 1, 0, 0 and has 11 more bytes yields
  2, 1, 1, 0, 0.
\<close>

theorem parseELFHeader_fields:
  assumes "20 \<le> length B" and "take 4 B = [0x7F, 0x45, 0x4C, 0x46]"
  shows "(\<exists>fileClass endianness headerVersion osAbi abiVersion.
            parseELFHeader B = Some [fileClass, endianness, headerVersion, osAbi, abiVersion] \<and>
            sint fileClass = sint (B ! 4) \<and> sint endianness = sint (B ! 5) \<and>
            sint headerVersion = sint (B ! 6) \<and> sint osAbi = sint (B ! 7) \<and>
            sint abiVersion = sint (B ! 8)) \<and>
         (\<forall>rest. length rest = 11 \<longrightarrow>
            parseELFHeader ([0x7F, 0x45, 0x4C, 0x46, 2, 1, 1, 0, 0] @ rest) = Some [2, 1, 1, 0, 0])"
proof
  show "\<exists>fileClass endianness headerVersion osAbi abiVersion.
            parseELFHeader B = Some [fileClass, endianness, headerVersion, osAbi, abiVersion] \<and>
            sint fileClass = sint (B ! 4) \<and> sint endianness = sint (B ! 5) \<and>
            sint headerVersion = sint (B ! 6) \<and> sint osAbi = sint (B ! 7) \<and>
            sint abiVersion = sint (B ! 8)"
    using parseELFHeader_Some [OF assms] by (simp add: sint_jint_of_jbyte)
  show "\<forall>rest. length rest = 11 \<longrightarrow>
            parseELFHeader ([0x7F, 0x45, 0x4C, 0x46, 2, 1, 1, 0, 0] @ rest) = Some [2, 1, 1, 0, 0]"
  proof (intro allI impI)
    fix rest :: "jbyte list" assume "length rest = 11"
    then have "20 \<le> length ([0x7F, 0x45, 0x4C, 0x46, 2, 1, 1, 0, 0] @ rest)" by simp
    moreover have "take 4 ([0x7F, 0x45, 0x4C, 0x46, 2, 1, 1, 0, 0] @ rest) = [0x7F, 0x45, 0x4C, 0x46]"
      by simp
    ultimately show "parseELFHeader ([0x7F, 0x45, 0x4C, 0x46, 2, 1, 1, 0, 0] @ rest) = Some [2, 1, 1, 0, 0]"
      by (simp add: parseELFHeader_Some jint_of_jbyte_def)
  qed
qed

theorem parseELFHeader_fields_witness:
  "20 \<le> length [0x7F, 0x45, 0x4C, 0x46, 1, 2, 1, 3, 9, 0, 0, 0, 0, 0, 0, 0, 0, 0, 0, 0 :: jbyte] \<and>
   take 4 [0x7F, 0x45, 0x4C, 0x46, 1, 2, 1, 3, 9, 0, 0, 0, 0, 0, 0, 0, 0, 0, 0, 0 :: jbyte]
     = [0x7F, 0x45, 0x4C, 0x46] \<and>
   (\<exists>fileClass endianness headerVersion osAbi abiVersion.
      parseELFHeader [0x7F, 0x45, 0x4C, 0x46, 1, 2, 1, 3, 9, 0, 0, 0, 0, 0, 0, 0, 0, 0, 0, 0]
        = Some [fileClass, endianness, headerVersion, osAbi, abiVersion] \<and>
      sint fileClass = 1 \<and> sint endianness = 2 \<and> sint headerVersion = 1 \<and>
      sint osAbi = 3 \<and> sint abiVersion = 9)"
proof -
  have l: "20 \<le> length [0x7F, 0x45, 0x4C, 0x46, 1, 2, 1, 3, 9, 0, 0, 0, 0, 0, 0, 0, 0, 0, 0, 0 :: jbyte]"
    by simp
  have t: "take 4 [0x7F, 0x45, 0x4C, 0x46, 1, 2, 1, 3, 9, 0, 0, 0, 0, 0, 0, 0, 0, 0, 0, 0 :: jbyte]
     = [0x7F, 0x45, 0x4C, 0x46]" by simp
  show ?thesis using l t parseELFHeader_fields [OF l t, THEN conjunct1] by simp
qed

text \<open>
  Claim C9. Whenever \<open>parseELFHeader\<close> succeeds, it returns five integers between -128 and
  127: the byte at offset \<open>4 + k\<close> with unsigned value \<open>v\<close> is reported as \<open>v - 256\<close> when
  \<open>v\<close> is at least 128 and as \<open>v\<close> otherwise.
\<close>

theorem parseELFHeader_signed_range:
  assumes "parseELFHeader B = Some r"
  shows "length r = 5 \<and>
         (\<forall>x\<in>set r. - 128 \<le> sint x \<and> sint x \<le> 127) \<and>
         (\<forall>k<5. sint (r ! k) =
            (if 128 \<le> unat (B ! (4 + k)) then int (unat (B ! (4 + k))) - 256
             else int (unat (B ! (4 + k)))))"
proof -
  from assms have r: "r = [jint_of_jbyte (B ! 4), jint_of_jbyte (B ! 5), jint_of_jbyte (B ! 6),
               jint_of_jbyte (B ! 7), jint_of_jbyte (B ! 8)]"
    by (simp add: parseELFHeader_def split: if_splits)
  have "length r = 5" by (simp add: r)
  moreover have "\<forall>x\<in>set r. - 128 \<le> sint x \<and> sint x \<le> 127"
    by (simp add: r sint_jint_of_jbyte sint_jbyte_range)
  moreover have "\<forall>k<5. sint (r ! k) = sint (B ! (4 + k))"
  proof (intro allI impI)
    fix k :: nat assume "k < 5"
    then consider "k = 0" | "k = 1" | "k = 2" | "k = 3" | "k = 4" by linarith
    then show "sint (r ! k) = sint (B ! (4 + k))"
      by cases (simp_all add: r sint_jint_of_jbyte)
  qed
  ultimately show ?thesis by (simp add: sint_jbyte_unat [symmetric])
qed

theorem parseELFHeader_signed_range_witness:
  "parseELFHeader [0x7F, 0x45, 0x4C, 0x46, 2, 1, 1, 0xFF, 0x80, 0, 0, 0, 0, 0, 0, 0, 0, 0, 0, 0]
     = Some [2, 1, 1, - 1, - 128] \<and>
   sint ([2, 1, 1, - 1, - 128 :: jint] ! 3) = 255 - 256 \<and>
   sint ([2, 1, 1, - 1, - 128 :: jint] ! 4) = 128 - 256"
proof -
  have h: "parseELFHeader [0x7F, 0x45, 0x4C, 0x46, 2, 1, 1, 0xFF, 0x80, 0, 0, 0, 0, 0, 0, 0, 0, 0, 0, 0]
     = Some [2, 1, 1, - 1, - 128]"
    by (simp add: parseELFHeader_def elf_magic_mismatch_def jint_of_jbyte_def)
  from parseELFHeader_signed_range [OF h]
  have a: "\<forall>k<5. sint ([2, 1, 1, - 1, - 128 :: jint] ! k) =
            (if 128 \<le> unat ([0x7F, 0x45, 0x4C, 0x46, 2, 1, 1, 0xFF, 0x80, 0, 0, 0, 0, 0, 0, 0, 0, 0, 0, 0 :: jbyte] ! (4 + k)) then int (unat ([0x7F, 0x45, 0x4C, 0x46, 2, 1, 1, 0xFF, 0x80, 0, 0, 0, 0, 0, 0, 0, 0, 0, 0, 0 :: jbyte] ! (4 + k))) - 256
             else int (unat ([0x7F, 0x45, 0x4C, 0x46, 2, 1, 1, 0xFF, 0x80, 0, 0, 0, 0, 0, 0, 0, 0, 0, 0, 0 :: jbyte] ! (4 + k))))"
    by blast
  from a [rule_format, of 3] a [rule_format, of 4] h show ?thesis by simp
qed

section \<open>Claims about extractStrings\<close>

text \<open>
  In this section \<open>w\<close> is the width of \<open>size_t\<close>, at least 32 bits.

  Claim C2. For every buffer \<open>B\<close> and every threshold \<open>m\<close>, every string returned by
  \<open>extractStrings\<close> has at least \<open>m\<close> characters, consists of bytes between 32 and 126
  only, and stands in \<open>B\<close> at some offset \<open>i\<close> such that the byte directly after its last
  character exists (the string does not touch the end of the buffer) and is 0.
\<close>

theorem strings_well_formed:
  assumes "32 \<le> w"
  shows "\<forall>s\<in>set (extractStrings w B m).
           sint m \<le> int (length s) \<and>
           (\<forall>c\<in>set s. 32 \<le> unat c \<and> unat c \<le> 126) \<and>
           (\<exists>i. i + length s < length B \<and> take (length s) (drop i B) = s \<and>
                B ! (i + length s) = 0)"
proof (intro ballI conjI)
  fix s assume "s \<in> set (extractStrings w B m)"
  then have e: "emitted_in w m B s" by (rule extractStrings_emitted)
  show "sint m \<le> int (length s)" using assms e by (rule emitted_in_threshold)
  show "\<exists>i. i + length s < length B \<and> take (length s) (drop i B) = s \<and>
                B ! (i + length s) = 0" using e by (rule emitted_in_index)
  fix c assume "c \<in> set s"
  with emitted_in_bytes [OF e] show "32 \<le> unat c" and "unat c \<le> 126" by blast+
qed

theorem strings_well_formed_witness:
  "(32::nat) \<le> 64 \<and> extractStrings 64 [72, 105, 33, 0] 2 = [[72, 105, 33]] \<and>
   sint (2::jint) \<le> int (length [72, 105, 33 :: jbyte]) \<and>
   32 \<le> unat (72 :: jbyte) \<and> unat (72 :: jbyte) \<le> 126 \<and>
   32 \<le> unat (105 :: jbyte) \<and> unat (105 :: jbyte) \<le> 126 \<and>
   32 \<le> unat (33 :: jbyte) \<and> unat (33 :: jbyte) \<le> 126 \<and>
   (\<exists>i. i + length [72, 105, 33 :: jbyte] < length [72, 105, 33, 0 :: jbyte] \<and>
        take (length [72, 105, 33 :: jbyte]) (drop i [72, 105, 33, 0 :: jbyte]) = [72, 105, 33] \<and>
        [72, 105, 33, 0 :: jbyte] ! (i + length [72, 105, 33 :: jbyte]) = 0)"
proof -
  have w: "(32::nat) \<le> 64" by simp
  have e: "extractStrings 64 [72, 105, 33, 0] 2 = [[72, 105, 33]]"
    by (simp add: extractStrings_def scan_step_def size_t_of_jint_def)
  then have "[72, 105, 33] \<in> set (extractStrings 64 [72, 105, 33, 0] 2)" by simp
  from strings_well_formed [OF w, of "[72, 105, 33, 0]" 2, THEN bspec, OF this]
  have "sint (2::jint) \<le> int (length [72, 105, 33 :: jbyte])"
    and "\<forall>c\<in>set [72, 105, 33 :: jbyte]. 32 \<le> unat c \<and> unat c \<le> 126"
    and "\<exists>i. i + length [72, 105, 33 :: jbyte] < length [72, 105, 33, 0 :: jbyte] \<and>
        take (length [72, 105, 33 :: jbyte]) (drop i [72, 105, 33, 0 :: jbyte]) = [72, 105, 33] \<and>
        [72, 105, 33, 0 :: jbyte] ! (i + length [72, 105, 33 :: jbyte]) = 0"
    by blast+
  with w e show ?thesis by simp
qed

text \<open>
  Claim C7. For every buffer \<open>B\<close> and every threshold \<open>m\<close>, appending a run \<open>R\<close> of
  printable bytes, which reaches the end of the buffer without a terminating 0 byte, does not
  change the result of \<open>extractStrings\<close>: the unterminated run is never emitted, whatever
  its length is.
\<close>

theorem unterminated_tail_ignored:
  assumes "\<forall>c\<in>set R. 32 \<le> unat c \<and> unat c \<le> 126"
  shows "extractStrings w (B @ R) m = extractStrings w B m"
proof -
  from assms have "\<forall>c\<in>set R. printable c"
    by (simp add: printable_def word_le_nat_alt)
  then show ?thesis
    by (simp add: extractStrings_def scan_loop_append scan_loop_printable)
qed

theorem unterminated_tail_ignored_witness:
  "32 \<le> unat (33 :: jbyte) \<and> unat (33 :: jbyte) \<le> 126 \<and>
   extractStrings 64 ([72, 105, 0] @ [33, 33]) 2 = extractStrings 64 [72, 105, 0] 2 \<and>
   extractStrings 64 [72, 105, 0] 2 = [[72, 105]]"
proof -
  have p: "\<forall>c\<in>set [33, 33 :: jbyte]. 32 \<le> unat c \<and> unat c \<le> 126" by simp
  have e: "extractStrings 64 [72, 105, 0] 2 = [[72, 105]]"
    by (simp add: extractStrings_def scan_step_def size_t_of_jint_def)
  have "32 \<le> unat (33 :: jbyte) \<and> unat (33 :: jbyte) \<le> 126" by simp
  with unterminated_tail_ignored [OF p, of 64 "[72, 105, 0]" 2] e show ?thesis by blast
qed

text \<open>
  Claim C8. For every buffer \<open>B\<close> (a Java array, so shorter than \<open>2 ^ 31\<close>) and every
  strictly negative \<open>minLength\<close>, \<open>extractStrings\<close> returns the empty sequence: the
  conversion to \<open>size_t\<close> turns the threshold into a value that no accumulator length
  reaches.
\<close>

theorem negative_minLength_empty:
  assumes "32 \<le> w" "length B < 2 ^ 31" "sint m < 0"
  shows "extractStrings w B m = []"
proof (rule ccontr)
  assume "extractStrings w B m \<noteq> []"
  then obtain s where "s \<in> set (extractStrings w B m)"
    by (cases "extractStrings w B m") auto
  then have e: "emitted_in w m B s" by (rule extractStrings_emitted)
  then have "size_t_of_jint w m \<le> length s" by (simp add: emitted_in_def)
  also have "length s < length B" using e by (rule emitted_in_length)
  also note assms(2)
  finally have "size_t_of_jint w m < 2 ^ 31" .
  also note size_t_of_jint_neg [OF assms(1,3)]
  finally show False by simp
qed

theorem negative_minLength_empty_witness:
  "(32::nat) \<le> 64 \<and> length [72, 105, 0 :: jbyte] < 2 ^ 31 \<and> sint (- 1 :: jint) < 0 \<and>
   extractStrings 64 [72, 105, 0] (- 1) = []"
proof -
  have w: "(32::nat) \<le> 64" by simp
  have l: "length [72, 105, 0 :: jbyte] < 2 ^ 31" by simp
  have n: "sint (- 1 :: jint) < 0" by simp
  from negative_minLength_empty [OF w l n] w l n show ?thesis by blast
qed

text \<open>
  Claim C5, as stated: every emitted string is non-empty, also for the threshold 0. This
  fails: with the threshold 0, a 0 byte that follows no printable run passes the test of
  line 114 with the empty accumulator, and the empty string is emitted.
\<close>

theorem empty_string_emitted:
  "extractStrings 64 [0] 0 = [[]] \<and> extractStrings 32 [0] 0 = [[]] \<and>
   \<not> 1 \<le> length (extractStrings 64 [0] 0 ! 0)"
  by (simp add: extractStrings_def scan_step_def size_t_of_jint_def)

text \<open>
  Claim C5, amended. For every buffer \<open>B\<close> and every threshold \<open>m\<close> other than 0, every
  string emitted by \<open>extractStrings\<close> is non-empty (has length at least 1).
\<close>

theorem nonzero_minLength_nonempty:
  assumes "32 \<le> w" "m \<noteq> 0"
  shows "\<forall>s\<in>set (extractStrings w B m). 1 \<le> length s"
proof
  fix s assume "s \<in> set (extractStrings w B m)"
  then have "emitted_in w m B s" by (rule extractStrings_emitted)
  then have le: "size_t_of_jint w m \<le> length s" by (simp add: emitted_in_def)
  from assms(2) have "sint m \<noteq> 0" by (simp add: word_eq_iff_signed [where 'a = int])
  then consider "0 < sint m" | "sint m < 0" by linarith
  then have "1 \<le> size_t_of_jint w m"
  proof cases
    case 1
    then show ?thesis using size_t_of_jint_nonneg [OF assms(1), of m] by simp
  next
    case 2
    have "(1::nat) \<le> 2 ^ 31" by simp
    also note size_t_of_jint_neg [OF assms(1) 2]
    finally show ?thesis .
  qed
  then show "1 \<le> length s" using le by simp
qed

theorem nonzero_minLength_nonempty_witness:
  "(32::nat) \<le> 64 \<and> (1::jint) \<noteq> 0 \<and> extractStrings 64 [0, 72, 0] 1 = [[72]] \<and>
   1 \<le> length [72 :: jbyte]"
proof -
  have w: "(32::nat) \<le> 64" by simp
  have m: "(1::jint) \<noteq> 0" by simp
  have e: "extractStrings 64 [0, 72, 0] 1 = [[72]]"
    by (simp add: extractStrings_def scan_step_def size_t_of_jint_def)
  then have "[72] \<in> set (extractStrings 64 [0, 72, 0] 1)" by simp
  from nonzero_minLength_nonempty [OF w m, of "[0, 72, 0]", THEN bspec, OF this] w m e
  show ?thesis by blast
qed

section \<open>Claims about calculateHash and disassembleARM64\<close>

text \<open>
  Claim C10. The output of \<open>calculateHash\<close> does not depend on its input: for any two
  buffers it returns the same string, which consists of 64 characters \<open>0\<close>.
\<close>

theorem calculateHash_constant:
  "calculateHash B = calculateHash B' \<and>
   calculateHash B = replicate 64 (CHR ''0'') \<and> length (calculateHash B) = 64"
  by (simp add: calculateHash_def numeral_eq_Suc)

text \<open>
  Claim C4. \<open>calculateHash\<close> of the empty buffer is required to be the published SHA-256
  digest of the empty input, e3b0c442...7852b855. The code returns the string of 64
  characters \<open>0\<close> instead, which differs from that digest.
\<close>

theorem calculateHash_empty_not_sha256:
  "calculateHash [] = ''0000000000000000000000000000000000000000000000000000000000000000'' \<and>
   calculateHash [] \<noteq> ''e3b0c44298fc1c149afbf4c8996fb92427ae41e4649b934ca495991b7852b855''"
  by (simp add: calculateHash_def)

text \<open>
  Claim C3. The raw bytes of the instructions produced for a buffer \<open>B\<close> are required to
  concatenate to the prefix of \<open>B\<close> whose length is the largest multiple of the instruction
  width (4 for ARM64) not above the length of \<open>B\<close>. The code produces no instruction at
  all: for the four bytes of one ARM64 \<open>nop\<close> the result is empty, so whatever bytes
  \<open>rawBytes\<close> assigns to an entry of the result, their concatenation is empty and differs
  from the four bytes of the buffer.
\<close>

theorem disassembleARM64_covers_nothing:
  "disassembleARM64 [0x1F, 0x20, 0x03, 0xD5] a = [] \<and>
   concat (map rawBytes (disassembleARM64 [0x1F, 0x20, 0x03, 0xD5] a)) \<noteq>
     take (4 * (length [0x1F, 0x20, 0x03, 0xD5 :: jbyte] div 4)) [0x1F, 0x20, 0x03, 0xD5 :: jbyte]"
  by (simp add: disassembleARM64_def)

end
